theory Spec2Isabelle
  imports Complex_Main "HOL-Library.Word"
begin

section \<open>JavaScript strings\<close>

text \<open>
  A JavaScript string is a sequence of UTF-16 code units; \<open>length\<close>, \<open>charCodeAt\<close>,
  \<open>slice\<close> and a regular expression without the \<open>u\<close> flag all work on code units.
  \<open>lit\<close> writes an ASCII literal of the source as such a sequence.
\<close>

type_synonym code_unit = "16 word"
type_synonym jsstring = "code_unit list"

definition lit :: "string \<Rightarrow> jsstring" where
  "lit s = map of_char s"

text \<open>
  The class \<open>\s\<close> of a JavaScript regular expression, which is also the set
  \<open>trim\<close> strips: WhiteSpace (TAB, VT, FF, SP, NBSP, ZWNBSP and the category Zs) and
  LineTerminator (LF, CR, LS, PS).
\<close>

definition is_space :: "code_unit \<Rightarrow> bool" where
  "is_space c =
     ((9 \<le> c \<and> c \<le> 13) \<or> c = 32 \<or> c = 160 \<or> c = 5760 \<or> (8192 \<le> c \<and> c \<le> 8202) \<or>
      c = 8232 \<or> c = 8233 \<or> c = 8239 \<or> c = 8287 \<or> c = 12288 \<or> c = 65279)"

text \<open>The class \<open>\w\<close> (no \<open>u\<close> or \<open>i\<close> flag): \<open>[A-Za-z0-9_]\<close>.\<close>

definition is_word :: "code_unit \<Rightarrow> bool" where
  "is_word c =
     ((48 \<le> c \<and> c \<le> 57) \<or> (65 \<le> c \<and> c \<le> 90) \<or> c = 95 \<or> (97 \<le> c \<and> c \<le> 122))"

text \<open>The class \<open>[^\w\s]\<close> of the tokenizer's \<open>replace\<close>.\<close>

definition is_punct :: "code_unit \<Rightarrow> bool" where
  "is_punct c = (\<not> is_word c \<and> \<not> is_space c)"

definition trim :: "jsstring \<Rightarrow> jsstring" where
  "trim s = rev (dropWhile is_space (rev (dropWhile is_space s)))"

definition ascii_lower :: "code_unit \<Rightarrow> code_unit" where
  "ascii_lower c = (if 65 \<le> c \<and> c \<le> 90 then c + 32 else c)"

text \<open>
  \<open>String.prototype.toLowerCase\<close>. On a string of ASCII code units the Unicode default
  case conversion maps \<open>A-Z\<close> to \<open>a-z\<close> and nothing else. On any other string it follows
  the Unicode character database (it may change the length and depends on context), which
  is no part of the repository: that conversion is the parameter \<open>uni\<close>.
\<close>

definition toLowerCase :: "(jsstring \<Rightarrow> jsstring) \<Rightarrow> jsstring \<Rightarrow> jsstring" where
  "toLowerCase uni s = (if list_all (\<lambda>c. c < 128) s then map ascii_lower s else uni s)"

text \<open>\<open>.replace(/[^\w\s]/g, ' $& ')\<close>: every match is one code unit, put between two spaces.\<close>

definition replace_punct :: "jsstring \<Rightarrow> jsstring" where
  "replace_punct s = concat (map (\<lambda>c. if is_punct c then [32, c, 32] else [c]) s)"

text \<open>
  \<open>.split(/\s+/)\<close>: the pieces between the maximal runs of white space, the empty pieces
  at both ends included; the empty string gives one empty piece. \<open>cur\<close> is the piece
  being read.
\<close>

function split_ws :: "jsstring \<Rightarrow> jsstring \<Rightarrow> jsstring list" where
  "split_ws cur [] = [cur]"
| "split_ws cur (c # cs) =
     (if is_space c then cur # split_ws [] (dropWhile is_space cs)
      else split_ws (cur @ [c]) cs)"
  by pat_completeness auto
termination
  by (relation "measure (\<lambda>(cur, s). length s)")
    (auto simp: length_dropWhile_le less_Suc_eq_le)

definition split_space :: "jsstring \<Rightarrow> jsstring list" where
  "split_space s = split_ws [] s"

section \<open>The tokenizer\<close>

definition tokenize :: "(jsstring \<Rightarrow> jsstring) \<Rightarrow> jsstring \<Rightarrow> jsstring list" where
  "tokenize uni txt =
     (if txt = [] \<or> trim txt = [] then []
      else filter (\<lambda>t. t \<noteq> [])
             (split_space (replace_punct (toLowerCase uni (trim txt)))))"

section \<open>The identifier hash\<close>

text \<open>
  \<open>h\<close> is a JavaScript number holding an integer below \<open>2 ^ 32\<close>, so \<open>h * 31 + c\<close> is
  below \<open>2 ^ 37\<close> and exact; \<open>>>> 0\<close> is ToUint32, the remainder modulo \<open>2 ^ 32\<close>.
\<close>

function tokenToId_loop :: "jsstring \<Rightarrow> nat \<Rightarrow> nat \<Rightarrow> nat" where
  "tokenToId_loop token i h =
     (if i < length token
      then tokenToId_loop token (i + 1) ((h * 31 + unat (token ! i)) mod 2 ^ 32)
      else h)"
  by pat_completeness auto
termination
  by (relation "measure (\<lambda>(token, i, h). length token - i)") auto

definition tokenToId :: "jsstring \<Rightarrow> nat" where
  "tokenToId token = tokenToId_loop token 0 0 mod 1024"

text \<open>The hash as the specification words it: a left fold over the characters.\<close>

definition hash_spec :: "jsstring \<Rightarrow> nat" where
  "hash_spec token = foldl (\<lambda>acc c. (acc * 31 + unat c) mod 2 ^ 32) 0 token mod 1024"

text \<open>The same accumulator in 32-bit unsigned machine arithmetic.\<close>

definition hash_u32 :: "jsstring \<Rightarrow> 32 word" where
  "hash_u32 token = foldl (\<lambda>acc c. acc * 31 + ucast c) 0 token"

section \<open>The embedder\<close>

text \<open>
  JavaScript numbers are IEEE 754 doubles, and \<open>Math.sin\<close> is approximated as the engine
  sees fit. Every value of an embedding vector is \<open>Math.round(x * 100) / 100\<close> for an
  \<open>x\<close> between 0 and 1: the double nearest to \<open>k / 100\<close> for the integer
  \<open>k = Math.round(x * 100)\<close>, a number from 0 to 100. The model keeps such a value as
  its \<open>k\<close>, a number of hundredths.
\<close>

typedef hundredth = "{k :: nat. k \<le> 100}"
  morphisms hundredths Hundredth
  by auto

text \<open>\<open>Math.round\<close>: the nearest integer, ties towards plus infinity.\<close>

definition math_round :: "real \<Rightarrow> int" where
  "math_round x = \<lfloor>x + 1 / 2\<rfloor>"

text \<open>
  \<open>Math.round((Math.sin(id * 0.1 + d * 0.5) * 0.5 + 0.5) * 100)\<close>; \<open>embed_exact\<close> is
  its value in exact arithmetic. For the ids that
  \<open>tokenToId\<close> returns (0 to 1023) and the 8 dimensions of the pipeline, the exact value
  of \<open>(sin(id / 10 + d / 2) / 2 + 1 / 2) * 100\<close> stays more than \<open>0.0006\<close> away from
  every rounding tie, far more than the error of the doubles, so the doubles round to the
  integer that exact arithmetic gives. For any other argument the rounding error of
  \<open>id * 0.1\<close> and of the engine's sine can change the integer: there it is \<open>fl id d\<close>,
  the result of the engine's double arithmetic, a parameter of the model.
\<close>

definition embed_exact :: "int \<Rightarrow> nat \<Rightarrow> int" where
  "embed_exact ident d =
     math_round ((sin (of_int ident * 0.1 + of_nat d * 0.5) * 0.5 + 0.5) * 100)"

definition embed_hundredth :: "(int \<Rightarrow> nat \<Rightarrow> hundredth) \<Rightarrow> int \<Rightarrow> nat \<Rightarrow> hundredth" where
  "embed_hundredth fl ident d =
     (if 0 \<le> ident \<and> ident < 1024 \<and> d < 8 then Hundredth (nat (embed_exact ident d))
      else fl ident d)"

text \<open>
  The loop of \<open>embedToken\<close>: \<open>d\<close> is the loop counter, \<open>vec\<close> the array pushed to,
  \<open>ident\<close> and \<open>ndim\<close> the parameters \<open>id\<close> and \<open>dim\<close> of the source.
\<close>

function embedToken_loop ::
  "(int \<Rightarrow> nat \<Rightarrow> hundredth) \<Rightarrow> int \<Rightarrow> nat \<Rightarrow> nat \<Rightarrow> hundredth list \<Rightarrow> hundredth list" where
  "embedToken_loop fl ident ndim d vec =
     (if d < ndim
      then embedToken_loop fl ident ndim (d + 1) (vec @ [embed_hundredth fl ident d])
      else vec)"
  by pat_completeness auto
termination
  by (relation "measure (\<lambda>(fl, ident, ndim, d, vec). ndim - d)") auto

definition embedToken :: "(int \<Rightarrow> nat \<Rightarrow> hundredth) \<Rightarrow> int \<Rightarrow> nat \<Rightarrow> hundredth list" where
  "embedToken fl ident ndim = embedToken_loop fl ident ndim 0 []"

section \<open>Numbers as text\<close>

text \<open>Number-to-string conversion of an integer: its decimal digits, \<open>-\<close> first when negative.\<close>

function show_nat :: "nat \<Rightarrow> jsstring" where
  "show_nat n = (if n < 10 then [48 + of_nat n] else show_nat (n div 10) @ [48 + of_nat (n mod 10)])"
  by pat_completeness auto
termination
  by (relation "measure (\<lambda>n. n)") auto

definition show_int :: "int \<Rightarrow> jsstring" where
  "show_int i = (if i < 0 then 45 # show_nat (nat (- i)) else show_nat (nat i))"

text \<open>\<open>Array.prototype.join\<close> on an array of strings.\<close>

fun join :: "jsstring \<Rightarrow> jsstring list \<Rightarrow> jsstring" where
  "join sep [] = []"
| "join sep [x] = x"
| "join sep (x # y # ys) = x @ sep @ join sep (y # ys)"

section \<open>The page\<close>

text \<open>
  A cell of the grid, as \<open>createCell\<close> makes it and \<open>renderMatrix\<close> styles it. The text of
  a value cell is \<open>value.toFixed(2)\<close>, kept as the value it formats.
\<close>

datatype content = Str jsstring | ToFixed2 hundredth

record cell =
  className :: jsstring
  textContent :: content
  style_background :: "jsstring option"
  style_color :: "jsstring option"

text \<open>
  The elements the script holds: the input's text, the text of the three summaries,
  whether \<open>matrixContainer\<close> carries the class \<open>has-matrix\<close>, and the grid's two style
  properties and children.
\<close>

record dom =
  textInput_value :: jsstring
  tokensOut :: jsstring
  idsOut :: jsstring
  matrixMeta :: jsstring
  has_matrix :: bool
  gridTemplateColumns :: jsstring
  gridTemplateRows :: jsstring
  matrixGrid :: "cell list"

text \<open>
  A call either returns, or throws and leaves the page as it was at the throw: no
  handler catches, and what was written to the page before stays written.
\<close>

datatype js_error = TypeError | RangeError

datatype outcome = Returns dom | Throws js_error dom

definition createCell :: "content \<Rightarrow> jsstring \<Rightarrow> cell" where
  "createCell txt cls =
     \<lparr>className = lit ''matrix-cell '' @ cls, textContent = txt,
      style_background = None, style_color = None\<rparr>"

text \<open>The em dash of the three placeholders, the multiplication sign and the ellipsis.\<close>

definition em_dash :: code_unit where
  "em_dash = 8212"

definition times_sign :: code_unit where
  "times_sign = 215"

definition ellipsis :: code_unit where
  "ellipsis = 8230"

section \<open>The matrix renderer\<close>

text \<open>
  \<open>Math.min(...xs)\<close> and \<open>Math.max(...xs)\<close>, on values read as hundredths. The spread
  passes every element as an argument of the call, and an engine takes only so many:
  with more than \<open>limit\<close> arguments the call throws a RangeError. The number \<open>limit\<close>
  differs between engines and stack sizes and is a parameter of the model. Of no argument
  the two functions are the two infinities; the model's value there is never read, since
  a cell is coloured only when the flattened matrix has a value.
\<close>

definition least :: "nat list \<Rightarrow> nat" where
  "least xs = (case xs of [] \<Rightarrow> 0 | x # ys \<Rightarrow> fold min ys x)"

definition greatest :: "nat list \<Rightarrow> nat" where
  "greatest xs = (case xs of [] \<Rightarrow> 0 | x # ys \<Rightarrow> fold max ys x)"

definition math_min :: "nat \<Rightarrow> nat list \<Rightarrow> js_error + nat" where
  "math_min limit xs = (if limit < length xs then Inl RangeError else Inr (least xs))"

definition math_max :: "nat \<Rightarrow> nat list \<Rightarrow> js_error + nat" where
  "math_max limit xs = (if limit < length xs then Inl RangeError else Inr (greatest xs))"

text \<open>\<open>max - min || 1\<close>, of a minimum and a maximum in hundredths.\<close>

definition heat_range :: "nat \<Rightarrow> nat \<Rightarrow> real" where
  "heat_range lo hi =
     (if real hi / 100 - real lo / 100 = 0 then 1 else real hi / 100 - real lo / 100)"

definition heat_t :: "nat \<Rightarrow> real \<Rightarrow> nat \<Rightarrow> real" where
  "heat_t lo rng v = (real v / 100 - real lo / 100) / rng"

definition rgb :: "int \<Rightarrow> int \<Rightarrow> int \<Rightarrow> jsstring" where
  "rgb r g b = lit ''rgb('' @ show_int r @ lit '','' @ show_int g @ lit '','' @ show_int b @ lit '')''"

text \<open>The colour of \<open>heatmapColor\<close> at a given \<open>t\<close>, in exact arithmetic.\<close>

definition anchor_color :: "real \<Rightarrow> jsstring" where
  "anchor_color t =
     rgb (math_round (125 + (1 - t) * 130)) (math_round (211 + (1 - t) * 44)) (math_round 252)"

text \<open>
  \<open>heatmapColor\<close>, with the \<open>min\<close> and \<open>range\<close> it closes over. At the two ends of the
  scale the doubles compute exactly: \<open>value - min\<close> is 0 at the minimum, so \<open>t\<close> is 0, and
  at the maximum \<open>value - min\<close> is the very double that \<open>range\<close> is, so \<open>t\<close> is 1; then
  \<open>125 + 130\<close>, \<open>211 + 44\<close>, \<open>125 + 0\<close> and \<open>211 + 0\<close> are exact. Between the two ends
  the rounding of the quotient decides the last unit of a channel (minimum 0.02, maximum
  0.06 and value 0.05 give 157.49... in doubles where exact arithmetic gives 157.5): the
  colour there is \<open>shade min range value\<close>, the result of the engine's double arithmetic,
  a parameter of the model.
\<close>

definition heatmapColor ::
  "(nat \<Rightarrow> real \<Rightarrow> nat \<Rightarrow> jsstring) \<Rightarrow> nat \<Rightarrow> real \<Rightarrow> nat \<Rightarrow> jsstring" where
  "heatmapColor shade lo rng v =
     (let t = heat_t lo rng v
      in if t = 0 \<or> t = 1
         then (let r = math_round (125 + (1 - t) * 130);
                   g = math_round (211 + (1 - t) * 44);
                   b = math_round 252
               in rgb r g b)
         else shade lo rng v)"

definition token_label :: "jsstring \<Rightarrow> jsstring" where
  "token_label tok = (if length tok > 10 then take 8 tok @ [ellipsis] else tok)"

text \<open>A value is greater than 0.5 when it has more than 50 hundredths.\<close>

definition value_cell ::
  "(nat \<Rightarrow> real \<Rightarrow> nat \<Rightarrow> jsstring) \<Rightarrow> nat \<Rightarrow> real \<Rightarrow> hundredth \<Rightarrow> cell" where
  "value_cell shade lo rng v =
     (createCell (ToFixed2 v) (lit ''value''))
       \<lparr>style_background := Some (heatmapColor shade lo rng (hundredths v)),
        style_color := Some (if hundredths v > 50 then lit ''var(--bg)'' else lit ''var(--text)'')\<rparr>"

text \<open>
  The inner loop over the columns \<open>c\<close> of one row: the cells it appends, and the error
  that ended it, if any. \<open>matrix[r][c]\<close> past the end of the row is \<open>undefined\<close>, and
  \<open>undefined.toFixed\<close> throws a TypeError before the cell is made.
\<close>

fun render_values ::
  "(nat \<Rightarrow> real \<Rightarrow> nat \<Rightarrow> jsstring) \<Rightarrow> nat \<Rightarrow> real \<Rightarrow> hundredth list \<Rightarrow> nat list
    \<Rightarrow> cell list \<times> js_error option" where
  "render_values shade lo rng row [] = ([], None)"
| "render_values shade lo rng row (c # cs) =
     (if c < length row
      then (case render_values shade lo rng row cs of
              (rest, e) \<Rightarrow> (value_cell shade lo rng (row ! c) # rest, e))
      else ([], Some TypeError))"

text \<open>
  The outer loop over the rows \<open>r\<close>, in the same way. \<open>tokens[r]\<close> past the end of
  \<open>tokens\<close> is \<open>undefined\<close>, and \<open>undefined.length\<close> throws a TypeError before the label
  is made.
\<close>

fun render_rows ::
  "(nat \<Rightarrow> real \<Rightarrow> nat \<Rightarrow> jsstring) \<Rightarrow> nat \<Rightarrow> real \<Rightarrow> jsstring list \<Rightarrow> hundredth list list \<Rightarrow> nat
    \<Rightarrow> nat list \<Rightarrow> cell list \<times> js_error option" where
  "render_rows shade lo rng tokens matrix cols [] = ([], None)"
| "render_rows shade lo rng tokens matrix cols (r # rs) =
     (if r < length tokens
      then (case render_values shade lo rng (matrix ! r) [0..<cols] of
              (cells, Some e) \<Rightarrow>
                (createCell (Str (token_label (tokens ! r))) (lit ''token-label'') # cells, Some e)
            | (cells, None) \<Rightarrow>
                (case render_rows shade lo rng tokens matrix cols rs of
                   (rest, e) \<Rightarrow>
                     (createCell (Str (token_label (tokens ! r))) (lit ''token-label'')
                        # cells @ rest, e)))
      else ([], Some TypeError))"

definition dim_headers :: "nat \<Rightarrow> cell list" where
  "dim_headers cols = map (\<lambda>c. createCell (Str (lit ''d'' @ show_nat c)) (lit ''dim-label'')) [0..<cols]"

text \<open>
  \<open>renderMatrix\<close>. \<open>matrix[0].length\<close> of an empty matrix throws a TypeError, and
  \<open>Math.min\<close> and \<open>Math.max\<close> can throw a RangeError, all three before the page is
  touched. An error of the loops leaves the grid with the cells appended so far.
\<close>

definition renderMatrix ::
  "nat \<Rightarrow> (nat \<Rightarrow> real \<Rightarrow> nat \<Rightarrow> jsstring) \<Rightarrow> jsstring list \<Rightarrow> hundredth list list \<Rightarrow> dom
    \<Rightarrow> outcome" where
  "renderMatrix limit shade tokens matrix d =
     (case matrix of
        [] \<Rightarrow> Throws TypeError d
      | row0 # _ \<Rightarrow>
          (let rows = length matrix;
               cols = length row0;
               allValues = concat matrix
           in case math_min limit (map hundredths allValues) of
                Inl e \<Rightarrow> Throws e d
              | Inr lo \<Rightarrow>
                  (case math_max limit (map hundredths allValues) of
                     Inl e \<Rightarrow> Throws e d
                   | Inr hi \<Rightarrow>
                       (let rng = heat_range lo hi;
                            (cells, err) = render_rows shade lo rng tokens matrix cols [0..<rows];
                            d' = d\<lparr>gridTemplateColumns :=
                                      lit ''auto repeat('' @ show_nat cols @ lit '', 22px)'',
                                    gridTemplateRows :=
                                      lit ''auto repeat('' @ show_nat rows @ lit '', 22px)'',
                                    matrixGrid :=
                                      createCell (Str []) (lit ''corner dim-label token-label'')
                                        # dim_headers cols @ cells\<rparr>
                        in case err of None \<Rightarrow> Returns d' | Some e \<Rightarrow> Throws e d'))))"

text \<open>
  The grid has \<open>cols + 1\<close> columns (\<open>auto repeat(cols, 22px)\<close>), so its child \<open>k\<close> stands
  in line \<open>k div (cols + 1)\<close>, column \<open>k mod (cols + 1)\<close>. Line 0 is the header and
  column 0 the labels: \<open>grid_at g cols r c\<close> is the child in line \<open>r\<close>, column \<open>c\<close>.
\<close>

definition grid_at :: "cell list \<Rightarrow> nat \<Rightarrow> nat \<Rightarrow> nat \<Rightarrow> cell" where
  "grid_at g cols r c = g ! (r * (cols + 1) + c)"

section \<open>The pipeline\<close>

definition run_tokens :: "(jsstring \<Rightarrow> jsstring) \<Rightarrow> dom \<Rightarrow> jsstring list" where
  "run_tokens uni d = tokenize uni (trim (textInput_value d))"

definition run_ids :: "(jsstring \<Rightarrow> jsstring) \<Rightarrow> dom \<Rightarrow> nat list" where
  "run_ids uni d = map tokenToId (run_tokens uni d)"

definition run_matrix ::
  "(int \<Rightarrow> nat \<Rightarrow> hundredth) \<Rightarrow> (jsstring \<Rightarrow> jsstring) \<Rightarrow> dom \<Rightarrow> hundredth list list" where
  "run_matrix fl uni d =
     (let tokens = run_tokens uni d; ids = run_ids uni d; ndim = 8
      in map (\<lambda>i. embedToken fl (int (ids ! i)) ndim) [0..<length tokens])"

definition placeholder :: jsstring where
  "placeholder = [em_dash]"

definition matrix_summary :: "nat \<Rightarrow> nat \<Rightarrow> jsstring" where
  "matrix_summary rows ndim =
     show_nat rows @ [32, times_sign, 32] @ show_nat ndim
       @ lit '' (tokens '' @ [times_sign] @ lit '' dimensions)''"

text \<open>
  \<open>runPipeline\<close>: the three summaries and the class \<open>has-matrix\<close> are written before
  \<open>renderMatrix\<close> is called, so they stay written when it throws.
\<close>

definition runPipeline ::
  "nat \<Rightarrow> (nat \<Rightarrow> real \<Rightarrow> nat \<Rightarrow> jsstring) \<Rightarrow> (int \<Rightarrow> nat \<Rightarrow> hundredth) \<Rightarrow> (jsstring \<Rightarrow> jsstring)
    \<Rightarrow> dom \<Rightarrow> outcome" where
  "runPipeline limit shade fl uni d =
     (let tokens = run_tokens uni d;
          ids = run_ids uni d;
          ndim = 8;
          matrix = run_matrix fl uni d;
          d1 = d\<lparr>tokensOut := (if tokens \<noteq> [] then join (lit '', '') tokens else placeholder),
                 idsOut := (if ids \<noteq> [] then join (lit '', '') (map show_nat ids) else placeholder),
                 matrixMeta :=
                   (if matrix \<noteq> [] then matrix_summary (length matrix) ndim else placeholder)\<rparr>
      in if matrix = [] then Returns (d1\<lparr>has_matrix := False, matrixGrid := []\<rparr>)
         else renderMatrix limit shade tokens matrix (d1\<lparr>has_matrix := True\<rparr>))"

section \<open>Auxiliary definitions for the statements\<close>

text \<open>
  A page whose input and outputs are all empty; the page a call leaves, its grid, and
  the error it threw, if any.
\<close>

definition blank_page :: dom where
  "blank_page =
     \<lparr>textInput_value = [], tokensOut = [], idsOut = [], matrixMeta = [], has_matrix = False,
      gridTemplateColumns = [], gridTemplateRows = [], matrixGrid = []\<rparr>"

definition page_of :: "outcome \<Rightarrow> dom" where
  "page_of res = (case res of Returns d \<Rightarrow> d | Throws e d \<Rightarrow> d)"

definition grid_of :: "outcome \<Rightarrow> cell list" where
  "grid_of res = matrixGrid (page_of res)"

definition thrown :: "outcome \<Rightarrow> js_error option" where
  "thrown res = (case res of Returns d \<Rightarrow> None | Throws e d \<Rightarrow> Some e)"

text \<open>
  The cells one pass of the outer loop appends for row \<open>r\<close>, and all children of the grid
  after a render that threw no error.
\<close>

definition row_cells ::
  "(nat \<Rightarrow> real \<Rightarrow> nat \<Rightarrow> jsstring) \<Rightarrow> nat \<Rightarrow> real \<Rightarrow> jsstring list \<Rightarrow> hundredth list list \<Rightarrow> nat
    \<Rightarrow> nat \<Rightarrow> cell list" where
  "row_cells shade lo rng tokens matrix cols r =
     createCell (Str (token_label (tokens ! r))) (lit ''token-label'')
       # map (\<lambda>c. value_cell shade lo rng (matrix ! r ! c)) [0..<cols]"

definition all_hundredths :: "hundredth list list \<Rightarrow> nat list" where
  "all_hundredths matrix = map hundredths (concat matrix)"

definition grid_cells ::
  "(nat \<Rightarrow> real \<Rightarrow> nat \<Rightarrow> jsstring) \<Rightarrow> jsstring list \<Rightarrow> hundredth list list \<Rightarrow> cell list" where
  "grid_cells shade tokens matrix =
     (let cols = length (matrix ! 0);
          lo = least (all_hundredths matrix);
          hi = greatest (all_hundredths matrix)
      in createCell (Str []) (lit ''corner dim-label token-label'')
           # dim_headers cols
           @ concat (map (row_cells shade lo (heat_range lo hi) tokens matrix cols) [0..<length matrix]))"


section \<open>Properties of the identifier hash\<close>

declare tokenToId_loop.simps [simp del]

lemma tokenToId_loop_foldl:
  "tokenToId_loop token i h =
     foldl (\<lambda>acc c. (acc * 31 + unat c) mod 2 ^ 32) h (drop i token)"
proof (induction token i h rule: tokenToId_loop.induct)
  case (1 token i h)
  show ?case
  proof (cases "i < length token")
    case True
    then have "drop i token = token ! i # drop (Suc i) token"
      by (simp add: Cons_nth_drop_Suc)
    with 1 True show ?thesis
      by (subst tokenToId_loop.simps) simp
  next
    case False
    then show ?thesis
      by (subst tokenToId_loop.simps) simp
  qed
qed

lemma tokenToId_hash_spec: "tokenToId token = hash_spec token"
  by (simp add: tokenToId_def hash_spec_def tokenToId_loop_foldl)

lemma unat_hash_step:
  "unat ((w :: 32 word) * 31 + ucast (c :: 16 word)) = (unat w * 31 + unat c) mod 2 ^ 32"
proof -
  have "unat c < 2 ^ 16"
    using unsigned_less [of c] by simp
  then have "unat c < 2 ^ 32"
    by simp
  then have "unat (ucast c :: 32 word) = unat c"
    by (simp add: unsigned_ucast_eq take_bit_nat_eq_self)
  then show ?thesis
    by (simp add: unat_word_ariths mod_add_left_eq)
qed

lemma unat_foldl_u32:
  "unat (foldl (\<lambda>acc c. acc * 31 + ucast c) (w :: 32 word) (token :: jsstring)) =
     foldl (\<lambda>acc c. (acc * 31 + unat c) mod 2 ^ 32) (unat w) token"
  by (induction token arbitrary: w) (simp_all add: unat_hash_step)

lemma hash_spec_u32: "hash_spec token = unat (hash_u32 token) mod 1024"
  by (simp add: hash_spec_def hash_u32_def unat_foldl_u32)

lemma hash_spec_examples:
  "map hash_spec [lit ''hi'', lit ''there'', lit ''!''] = [257, 612, 33]"
  by (simp add: hash_spec_def lit_def)

text \<open>
  Claim C1. For every token, the loop of \<open>tokenToId\<close> computes the hash of the
  specification: the accumulator starts at 0, each character in order sets it to
  \<open>(accumulator * 31 + charCode) mod 2 ^ 32\<close>, which is the accumulator of unsigned
  32-bit arithmetic, and the result is the accumulator modulo 1024, a number below 1024.
  The id of \<open>"a"\<close> is 97.
\<close>

theorem C1_tokenToId_hash:
  "tokenToId token = hash_spec token
   \<and> tokenToId token = unat (hash_u32 token) mod 1024
   \<and> tokenToId token < 1024
   \<and> tokenToId (lit ''a'') = 97"
proof -
  have "hash_spec (lit ''a'') = 97"
    by (simp add: hash_spec_def lit_def)
  moreover have "hash_spec token < 1024"
    by (simp add: hash_spec_def)
  ultimately show ?thesis
    by (simp add: tokenToId_hash_spec hash_spec_u32 [symmetric])
qed

section \<open>Properties of the tokenizer\<close>

lemma word_not_space: "is_word c \<Longrightarrow> \<not> is_space c"
  unfolding is_word_def is_space_def 
  by (auto simp: word_le_nat_alt)

lemma word_ascii: "is_word c \<Longrightarrow> c < 128"
  unfolding is_word_def
  by (auto simp: word_le_nat_alt word_less_nat_alt)

lemma unat_add_32: "c \<le> 90 \<Longrightarrow> unat (c + 32 :: 16 word) = unat c + 32"
  by (simp add: word_le_nat_alt unat_word_ariths)

lemma ascii_lower_word: "is_word c \<Longrightarrow> is_word (ascii_lower c)"
  unfolding is_word_def ascii_lower_def
  by (auto simp: word_le_nat_alt unat_add_32)

lemma punct_not_space: "is_punct c \<Longrightarrow> \<not> is_space c"
  by (simp add: is_punct_def)

lemma is_space_32: "is_space 32"
  by (simp add: is_space_def)

lemma split_ws_dropWhile:
  "filter (\<lambda>t. t \<noteq> []) (split_ws [] (dropWhile is_space s)) =
   filter (\<lambda>t. t \<noteq> []) (split_ws [] s)"
  by (cases s) auto

lemma pieces_space:
  assumes "is_space c"
  shows "filter (\<lambda>t. t \<noteq> []) (split_ws cur (replace_punct (c # s))) =
         filter (\<lambda>t. t \<noteq> []) [cur] @ filter (\<lambda>t. t \<noteq> []) (split_ws [] (replace_punct s))"
  using assms by (simp add: replace_punct_def is_punct_def split_ws_dropWhile)

lemma pieces_word:
  assumes "is_word c"
  shows "split_ws cur (replace_punct (c # s)) = split_ws (cur @ [c]) (replace_punct s)"
  using assms word_not_space [of c] by (simp add: replace_punct_def is_punct_def)

lemma pieces_punct:
  assumes "is_punct c"
  shows "filter (\<lambda>t. t \<noteq> []) (split_ws cur (replace_punct (c # s))) =
         filter (\<lambda>t. t \<noteq> []) [cur] @ [c] # filter (\<lambda>t. t \<noteq> []) (split_ws [] (replace_punct s))"
  using assms punct_not_space [of c] is_space_32
  by (simp add: replace_punct_def split_ws_dropWhile)

lemma pieces_words:
  "list_all is_word s \<Longrightarrow> split_ws cur (replace_punct s) = [cur @ s]"
proof (induction s arbitrary: cur)
  case Nil
  then show ?case by (simp add: replace_punct_def)
next
  case (Cons c s)
  then show ?case by (simp add: pieces_word)
qed

lemma pieces_shape:
  assumes "list_all is_word cur"
    and "t \<in> set (filter (\<lambda>t. t \<noteq> []) (split_ws cur (replace_punct s)))"
  shows "(t \<noteq> [] \<and> list_all is_word t) \<or> (\<exists>c. t = [c] \<and> is_punct c)"
  using assms
proof (induction s arbitrary: cur)
  case Nil
  then show ?case by (simp add: replace_punct_def split: if_splits)
next
  case (Cons c s)
  consider (space) "is_space c" | (word) "is_word c" | (punct) "is_punct c"
    by (auto simp: is_punct_def)
  then show ?case
  proof cases
    case space
    with Cons.prems have "t = cur \<and> t \<noteq> [] \<or>
        t \<in> set (filter (\<lambda>t. t \<noteq> []) (split_ws [] (replace_punct s)))"
      by (auto simp: pieces_space split: if_splits)
    then show ?thesis
      using Cons.IH [of "[]"] Cons.prems(1) by auto
  next
    case word
    with Cons.prems have "t \<in> set (filter (\<lambda>t. t \<noteq> []) (split_ws (cur @ [c]) (replace_punct s)))"
      by (simp add: pieces_word)
    moreover have "list_all is_word (cur @ [c])"
      using word Cons.prems(1) by simp
    ultimately show ?thesis
      using Cons.IH [of "cur @ [c]"] by blast
  next
    case punct
    with Cons.prems have "t = cur \<and> t \<noteq> [] \<or> t = [c] \<or>
        t \<in> set (filter (\<lambda>t. t \<noteq> []) (split_ws [] (replace_punct s)))"
      by (auto simp: pieces_punct split: if_splits)
    then show ?thesis
      using Cons.IH [of "[]"] Cons.prems(1) punct by auto
  qed
qed

lemma dropWhile_none: "list_all (\<lambda>c. \<not> P c) s \<Longrightarrow> dropWhile P s = s"
  by (cases s) simp_all

lemma trim_no_space: "list_all (\<lambda>c. \<not> is_space c) s \<Longrightarrow> trim s = s"
  by (simp add: trim_def dropWhile_none)

lemma trim_all_space: "list_all is_space s \<Longrightarrow> trim s = []"
  by (auto simp: trim_def list_all_iff dest: set_dropWhileD)

lemma tokenize_blank: "trim txt = [] \<Longrightarrow> tokenize uni txt = []"
  by (simp add: tokenize_def)

lemma toLowerCase_words:
  assumes "list_all is_word s"
  shows "toLowerCase uni s = map ascii_lower s" and "list_all is_word (toLowerCase uni s)"
proof -
  have "list_all (\<lambda>c. c < 128) s"
    using assms by (auto simp: list_all_iff word_ascii)
  then show "toLowerCase uni s = map ascii_lower s"
    by (simp add: toLowerCase_def)
  then show "list_all is_word (toLowerCase uni s)"
    using assms by (auto simp: list_all_iff ascii_lower_word)
qed

lemma tokenize_words:
  assumes "s \<noteq> []" and "list_all is_word s"
  shows "tokenize uni s = [toLowerCase uni s]"
proof -
  have "list_all (\<lambda>c. \<not> is_space c) s"
    using assms(2) by (auto simp: list_all_iff word_not_space)
  then have t: "trim s = s"
    by (rule trim_no_space)
  have ne: "toLowerCase uni s \<noteq> []"
    using assms by (simp add: toLowerCase_words(1))
  have "list_all is_word (toLowerCase uni s)"
    using assms(2) by (rule toLowerCase_words(2))
  then have "split_ws [] (replace_punct (toLowerCase uni s)) = [[] @ toLowerCase uni s]"
    by (rule pieces_words)
  then show ?thesis
    using assms(1) t ne by (simp add: tokenize_def split_space_def)
qed

text \<open>
  Claim C5. A non-empty string with no white space and no character of the class
  \<open>[^\w\s]\<close> (so all its characters are word characters) gives one token, the
  lower-cased input; the empty string and a string of white space give no token.
\<close>

theorem C5_tokenize_single_word:
  "(s \<noteq> [] \<and> list_all (\<lambda>c. \<not> is_space c \<and> \<not> is_punct c) s \<longrightarrow>
      tokenize uni s = [toLowerCase uni s] \<and> toLowerCase uni s = map ascii_lower s)
   \<and> tokenize uni [] = []
   \<and> (list_all is_space s \<longrightarrow> tokenize uni s = [])"
proof -
  have "list_all is_word s" if "list_all (\<lambda>c. \<not> is_space c \<and> \<not> is_punct c) s"
    using that by (auto simp: list_all_iff is_punct_def)
  then show ?thesis
    by (auto simp: tokenize_words toLowerCase_words(1) tokenize_blank trim_all_space)
qed

theorem C5_tokenize_single_word_witness:
  "lit ''Hello_42'' \<noteq> []
   \<and> list_all (\<lambda>c. \<not> is_space c \<and> \<not> is_punct c) (lit ''Hello_42'')
   \<and> tokenize (\<lambda>s. s) (lit ''Hello_42'') = [lit ''hello_42'']
   \<and> list_all is_space (lit ''   '')
   \<and> tokenize (\<lambda>s. s) (lit ''   '') = []"
proof -
  have a: "lit ''Hello_42'' \<noteq> []
      \<and> list_all (\<lambda>c. \<not> is_space c \<and> \<not> is_punct c) (lit ''Hello_42'')"
    by (simp add: lit_def is_space_def is_punct_def is_word_def)
  have b: "list_all is_space (lit ''   '')"
    by (simp add: lit_def is_space_def)
  have c: "map ascii_lower (lit ''Hello_42'') = lit ''hello_42''"
    by (simp add: lit_def ascii_lower_def)
  show ?thesis
    using a b c C5_tokenize_single_word [of "lit ''Hello_42''" "\<lambda>s. s"]
      C5_tokenize_single_word [of "lit ''   ''" "\<lambda>s. s"]
    by simp
qed

lemma pieces_maximal:
  assumes "t \<in> set (filter (\<lambda>t. t \<noteq> []) (split_ws cur (replace_punct s)))"
    and "list_all is_word t"
  shows "\<exists>pre post. cur @ s = pre @ t @ post
           \<and> (pre = [] \<or> \<not> is_word (last pre)) \<and> (post = [] \<or> \<not> is_word (hd post))"
  using assms(1)
proof (induction s arbitrary: cur)
  case Nil
  then have "t = cur"
    by (simp add: replace_punct_def split: if_splits)
  then show ?case
    by (intro exI [of _ "[]"]) simp
next
  case (Cons c s)
  have later: "\<exists>pre post. cur @ c # s = pre @ t @ post
           \<and> (pre = [] \<or> \<not> is_word (last pre)) \<and> (post = [] \<or> \<not> is_word (hd post))"
    if c: "\<not> is_word c"
      and t: "t \<in> set (filter (\<lambda>t. t \<noteq> []) (split_ws [] (replace_punct s)))"
  proof -
    from Cons.IH [OF t] obtain pre post where
      s: "s = pre @ t @ post" and pre: "pre = [] \<or> \<not> is_word (last pre)"
      and post: "post = [] \<or> \<not> is_word (hd post)"
      by auto
    have "cur @ c # s = (cur @ c # pre) @ t @ post"
      by (simp add: s)
    moreover have "\<not> is_word (last (cur @ c # pre))"
      using c pre by auto
    ultimately show ?thesis
      using post by blast
  qed
  have now: "\<exists>pre post. cur @ c # s = pre @ t @ post
           \<and> (pre = [] \<or> \<not> is_word (last pre)) \<and> (post = [] \<or> \<not> is_word (hd post))"
    if "\<not> is_word c" and "t = cur"
    using that by (intro exI [of _ "[]"] exI [of _ "c # s"]) simp
  consider (space) "is_space c" | (word) "is_word c" | (punct) "is_punct c"
    by (auto simp: is_punct_def)
  then show ?case
  proof cases
    case space
    then have c: "\<not> is_word c"
      using word_not_space by blast
    from Cons.prems space have "t = cur \<or>
        t \<in> set (filter (\<lambda>t. t \<noteq> []) (split_ws [] (replace_punct s)))"
      by (auto simp: pieces_space split: if_splits)
    then show ?thesis
      using now [OF c] later [OF c] by blast
  next
    case word
    with Cons.prems
    have "t \<in> set (filter (\<lambda>t. t \<noteq> []) (split_ws (cur @ [c]) (replace_punct s)))"
      by (simp add: pieces_word)
    from Cons.IH [OF this] show ?thesis
      by simp
  next
    case punct
    then have c: "\<not> is_word c"
      by (simp add: is_punct_def)
    from Cons.prems punct have "t = cur \<or> t = [c] \<or>
        t \<in> set (filter (\<lambda>t. t \<noteq> []) (split_ws [] (replace_punct s)))"
      by (auto simp: pieces_punct split: if_splits)
    moreover have "t \<noteq> [c]"
      using assms(2) c by auto
    ultimately show ?thesis
      using now [OF c] later [OF c] by blast
  qed
qed

lemma pieces_word_prefix:
  "list_all is_word w \<Longrightarrow>
   split_ws cur (replace_punct (w @ s)) = split_ws (cur @ w) (replace_punct s)"
  by (induction w arbitrary: cur) (simp_all add: pieces_word)

lemma pieces_run_here:
  assumes "w \<noteq> []" and "list_all is_word w" and "post = [] \<or> \<not> is_word (hd post)"
  shows "w \<in> set (filter (\<lambda>t. t \<noteq> []) (split_ws [] (replace_punct (w @ post))))"
proof (cases post)
  case Nil
  then show ?thesis
    using assms(1,2) pieces_words [of w "[]"] by simp
next
  case (Cons c cs)
  have start: "split_ws [] (replace_punct (w @ post)) = split_ws w (replace_punct (c # cs))"
    using pieces_word_prefix [OF assms(2), of "[]" post] Cons by simp
  from Cons have "is_space c \<or> is_punct c"
    using assms(3) by (auto simp: is_punct_def)
  then obtain rest where
    "filter (\<lambda>t. t \<noteq> []) (split_ws w (replace_punct (c # cs))) = w # rest"
    using assms(1) by (auto simp: pieces_space pieces_punct)
  then have "w \<in> set (filter (\<lambda>t. t \<noteq> []) (split_ws w (replace_punct (c # cs))))"
    by (simp only: list.set_intros)
  then show ?thesis
    by (simp only: start)
qed

lemma pieces_run:
  assumes "w \<noteq> []" and "list_all is_word w" and "post = [] \<or> \<not> is_word (hd post)"
    and "pre = [] \<longrightarrow> cur = []" and "pre \<noteq> [] \<longrightarrow> \<not> is_word (last pre)"
  shows "w \<in> set (filter (\<lambda>t. t \<noteq> []) (split_ws cur (replace_punct (pre @ w @ post))))"
  using assms(4,5)
proof (induction pre arbitrary: cur)
  case Nil
  then show ?case
    using pieces_run_here [OF assms(1-3)] by simp
next
  case (Cons c pre)
  have last: "pre \<noteq> [] \<longrightarrow> \<not> is_word (last pre)"
    using Cons.prems(2) by auto
  consider (space) "is_space c" | (word) "is_word c" | (punct) "is_punct c"
    by (auto simp: is_punct_def)
  then show ?case
  proof cases
    case space
    then show ?thesis
      using Cons.IH [of "[]"] last by (simp add: pieces_space)
  next
    case word
    then have "pre \<noteq> []"
      using Cons.prems(2) by auto
    then show ?thesis
      using Cons.IH [of "cur @ [c]"] last word by (simp add: pieces_word)
  next
    case punct
    then show ?thesis
      using Cons.IH [of "[]"] last by (simp add: pieces_punct)
  qed
qed

text \<open>
  Claim C10. Every token of \<open>tokenize\<close> is a non-empty run of word characters or one
  single character that is neither a word character nor white space, and no token holds
  white space. A token of word characters is a whole run of the lower-cased text: the
  character before it and the character after it, if any, are no word characters.
  Conversely every such whole run of the lower-cased text is a token. The underscore and
  the digits are word characters, never matched by the class \<open>[^\w\s]\<close> that isolates
  punctuation: they are never cut out of their run, and \<open>a_1\<close> is one token.
\<close>

theorem C10_token_shape:
  assumes "t \<in> set (tokenize uni txt)"
  shows "((t \<noteq> [] \<and> list_all is_word t) \<or> (\<exists>c. t = [c] \<and> \<not> is_word c \<and> \<not> is_space c))
         \<and> list_all (\<lambda>c. \<not> is_space c) t
         \<and> (list_all is_word t \<longrightarrow>
              (\<exists>pre post. toLowerCase uni (trim txt) = pre @ t @ post
                 \<and> (pre = [] \<or> \<not> is_word (last pre)) \<and> (post = [] \<or> \<not> is_word (hd post))))
         \<and> (\<forall>pre w post. toLowerCase uni (trim txt) = pre @ w @ post
                \<and> w \<noteq> [] \<and> list_all is_word w
                \<and> (pre = [] \<or> \<not> is_word (last pre)) \<and> (post = [] \<or> \<not> is_word (hd post))
              \<longrightarrow> w \<in> set (tokenize uni txt))
         \<and> (\<forall>c. c = 95 \<or> (48 \<le> c \<and> c \<le> 57) \<longrightarrow> is_word c \<and> \<not> is_punct c)
         \<and> tokenize uni (lit ''a_1'') = [lit ''a_1'']"
proof -
  define low where "low = toLowerCase uni (trim txt)"
  from assms have ne: "txt \<noteq> []" "trim txt \<noteq> []"
    by (auto simp: tokenize_def split: if_splits)
  then have tok: "tokenize uni txt = filter (\<lambda>t. t \<noteq> []) (split_ws [] (replace_punct low))"
    by (simp add: tokenize_def split_space_def low_def)
  have mem: "t \<in> set (filter (\<lambda>t. t \<noteq> []) (split_ws [] (replace_punct low)))"
    using assms tok by simp
  then have shape: "(t \<noteq> [] \<and> list_all is_word t) \<or> (\<exists>c. t = [c] \<and> is_punct c)"
    using pieces_shape [of "[]" t low] by simp
  then have nospace: "list_all (\<lambda>c. \<not> is_space c) t"
    by (auto simp: list_all_iff word_not_space is_punct_def)
  have whole: "\<exists>pre post. low = pre @ t @ post
      \<and> (pre = [] \<or> \<not> is_word (last pre)) \<and> (post = [] \<or> \<not> is_word (hd post))"
    if "list_all is_word t"
    using pieces_maximal [OF mem that] by simp
  have runs: "w \<in> set (tokenize uni txt)"
    if "low = pre @ w @ post" "w \<noteq> []" "list_all is_word w"
      "pre = [] \<or> \<not> is_word (last pre)" "post = [] \<or> \<not> is_word (hd post)" for pre w post
    unfolding tok that(1) using that(2-5) by (intro pieces_run) auto
  have chars: "\<forall>c. c = 95 \<or> (48 \<le> c \<and> c \<le> 57) \<longrightarrow> is_word c \<and> \<not> is_punct c"
    by (auto simp: is_word_def is_punct_def)
  have a1: "lit ''a_1'' \<noteq> []" "list_all is_word (lit ''a_1'')"
    "map ascii_lower (lit ''a_1'') = lit ''a_1''"
    by (simp_all add: lit_def is_word_def ascii_lower_def)
  have ex: "tokenize uni (lit ''a_1'') = [lit ''a_1'']"
    using tokenize_words [OF a1(1,2), of uni] toLowerCase_words(1) [OF a1(2), of uni] a1(3)
    by simp
  show ?thesis
    unfolding low_def [symmetric]
    using shape nospace whole runs chars ex by (auto simp: is_punct_def)
qed

theorem C10_token_shape_witness:
  "lit ''a_1'' \<in> set (tokenize (\<lambda>s. s) (lit ''Say a_1!''))
   \<and> list_all is_word (lit ''a_1'')
   \<and> list_all (\<lambda>c. \<not> is_space c) (lit ''a_1'')
   \<and> toLowerCase (\<lambda>s. s) (trim (lit ''Say a_1!'')) = lit ''say '' @ lit ''a_1'' @ lit ''!''
   \<and> lit ''!'' \<in> set (tokenize (\<lambda>s. s) (lit ''Say a_1!''))
   \<and> \<not> list_all is_word (lit ''!'')
   \<and> lit ''say'' \<in> set (tokenize (\<lambda>s. s) (lit ''Say a_1!''))"
proof -
  have toks: "tokenize (\<lambda>s. s) (lit ''Say a_1!'') = [lit ''say'', lit ''a_1'', lit ''!'']"
    by (simp add: tokenize_def lit_def trim_def is_space_def toLowerCase_def ascii_lower_def
        replace_punct_def is_punct_def is_word_def split_space_def)
  then have h: "lit ''a_1'' \<in> set (tokenize (\<lambda>s. s) (lit ''Say a_1!''))"
    by simp
  have low: "toLowerCase (\<lambda>s. s) (trim (lit ''Say a_1!'')) = lit ''say '' @ lit ''a_1'' @ lit ''!''"
    by (simp add: lit_def trim_def is_space_def toLowerCase_def ascii_lower_def)
  have w: "list_all is_word (lit ''a_1'')" and nw: "\<not> list_all is_word (lit ''!'')"
    by (simp_all add: lit_def is_word_def)
  from C10_token_shape [OF h] have "list_all (\<lambda>c. \<not> is_space c) (lit ''a_1'')"
    by blast
  then show ?thesis
    using toks low w nw by simp
qed

section \<open>Properties of the embedder\<close>

declare embedToken_loop.simps [simp del]

lemma math_round_bounds:
  assumes "0 \<le> x" and "x \<le> 100"
  shows "0 \<le> math_round x" and "math_round x \<le> 100"
proof -
  show "0 \<le> math_round x"
    using assms(1) by (simp add: math_round_def)
  have "x + 1 / 2 < 101"
    using assms(2) by simp
  then have "\<lfloor>x + 1 / 2\<rfloor> < 101"
    by (simp add: floor_less_iff)
  then show "math_round x \<le> 100"
    by (simp add: math_round_def)
qed

lemma math_round_close:
  assumes "math_round x = math_round y"
  shows "\<bar>x - y\<bar> < 1"
proof -
  define n where "n = \<lfloor>x + 1 / 2\<rfloor>"
  have "n = \<lfloor>y + 1 / 2\<rfloor>"
    using assms by (simp add: math_round_def n_def)
  then have "of_int n \<le> y + 1 / 2" and "y + 1 / 2 < of_int n + 1"
    by linarith+
  moreover have "of_int n \<le> x + 1 / 2" and "x + 1 / 2 < of_int n + 1"
    unfolding n_def by linarith+
  ultimately show ?thesis
    by linarith
qed

lemma sin_one_ge_half: "1 / 2 \<le> sin (1 :: real)"
proof -
  have "sin (pi / 6) \<le> sin 1"
    using pi_less_4 pi_ge_two pi_gt_zero by (intro sin_monotone_2pi_le) simp_all
  then show ?thesis
    by (simp add: sin_30)
qed

lemma cos_one_le: "cos (1 :: real) \<le> 9 / 10"
proof -
  have "cos 1 \<le> cos (pi / 6)"
    using pi_less_4 pi_ge_two pi_gt_zero by (intro cos_monotone_0_pi_le) simp_all
  moreover have "sqrt 3 \<le> 9 / 5"
    by (rule real_le_lsqrt) (simp_all add: power2_eq_square)
  ultimately show ?thesis
    by (simp add: cos_30)
qed

text \<open>Three samples of a sine one radian apart cannot lie within 1/50 of each other.\<close>

lemma sine_samples_spread:
  fixes a :: real
  assumes "\<bar>sin (a - 1) - sin a\<bar> < 1 / 50" and "\<bar>sin (a + 1) - sin a\<bar> < 1 / 50"
  shows False
proof -
  have sum: "sin (a + 1) + sin (a - 1) = 2 * sin a * cos 1"
    by (simp add: sin_add sin_diff)
  have dif: "sin (a + 1) - sin (a - 1) = 2 * cos a * sin 1"
    by (simp add: sin_add sin_diff)
  have "\<bar>sin (a + 1) + sin (a - 1) - 2 * sin a\<bar> < 2 / 50"
    using assms by linarith
  moreover have "sin (a + 1) + sin (a - 1) - 2 * sin a = 2 * sin a * (cos 1 - 1)"
    unfolding sum by (simp add: algebra_simps)
  ultimately have "\<bar>2 * sin a * (cos 1 - 1)\<bar> < 2 / 50"
    by simp
  then have "\<bar>sin a\<bar> * (1 - cos 1) < 1 / 50"
    by (simp add: abs_mult abs_minus_commute)
  moreover have "\<bar>sin a\<bar> * (1 / 10) \<le> \<bar>sin a\<bar> * (1 - cos 1)"
    using cos_one_le by (intro mult_left_mono) simp_all
  ultimately have s: "\<bar>sin a\<bar> < 1 / 5"
    by simp
  have "\<bar>sin (a + 1) - sin (a - 1)\<bar> < 2 / 50"
    using assms by linarith
  then have "\<bar>cos a\<bar> * sin 1 < 1 / 50"
    using sin_one_ge_half by (simp add: dif abs_mult)
  moreover have "\<bar>cos a\<bar> * (1 / 2) \<le> \<bar>cos a\<bar> * sin 1"
    using sin_one_ge_half by (intro mult_left_mono) simp_all
  ultimately have c: "\<bar>cos a\<bar> < 1 / 25"
    by simp
  have "(sin a)\<^sup>2 = \<bar>sin a\<bar> * \<bar>sin a\<bar>" "(cos a)\<^sup>2 = \<bar>cos a\<bar> * \<bar>cos a\<bar>"
    by (simp_all add: power2_eq_square)
  moreover have "\<bar>sin a\<bar> * \<bar>sin a\<bar> \<le> (1 / 5) * (1 / 5)"
    using s by (intro mult_mono) simp_all
  moreover have "\<bar>cos a\<bar> * \<bar>cos a\<bar> \<le> (1 / 25) * (1 / 25)"
    using c by (intro mult_mono) simp_all
  ultimately have "(sin a)\<^sup>2 + (cos a)\<^sup>2 < 1"
    by simp
  then show False
    by simp
qed

lemma hundredths_le: "hundredths h \<le> 100"
  using hundredths [of h] by simp

lemma embed_exact_bounds: "0 \<le> embed_exact ident d \<and> embed_exact ident d \<le> 100"
proof -
  define s where "s = sin (of_int ident * 0.1 + of_nat d * 0.5 :: real)"
  have "- 1 \<le> s" and "s \<le> 1"
    by (simp_all add: s_def)
  then have "0 \<le> (s * 0.5 + 0.5) * 100" and "(s * 0.5 + 0.5) * 100 \<le> 100"
    by simp_all
  then have "0 \<le> math_round ((s * 0.5 + 0.5) * 100)"
    and "math_round ((s * 0.5 + 0.5) * 100) \<le> 100"
    by (rule math_round_bounds)+
  then show ?thesis
    by (simp add: embed_exact_def s_def)
qed

lemma hundredths_embed:
  assumes "0 \<le> ident" and "ident < 1024" and "d < 8"
  shows "hundredths (embed_hundredth fl ident d) = nat (embed_exact ident d)"
proof -
  have "nat (embed_exact ident d) \<le> 100"
    using embed_exact_bounds [of ident d] by linarith
  then show ?thesis
    using assms by (simp add: embed_hundredth_def Hundredth_inverse)
qed

lemma embed_exact_spread:
  "\<not> (embed_exact ident 0 = embed_exact ident 2 \<and> embed_exact ident 4 = embed_exact ident 2)"
proof
  define a :: real where "a = of_int ident * 0.1 + 1"
  define x :: "real \<Rightarrow> real" where "x = (\<lambda>s. 50 * s + 50)"
  assume eq: "embed_exact ident 0 = embed_exact ident 2 \<and> embed_exact ident 4 = embed_exact ident 2"
  have e0: "embed_exact ident 0 = math_round (x (sin (a - 1)))"
    and e2: "embed_exact ident 2 = math_round (x (sin a))"
    and e4: "embed_exact ident 4 = math_round (x (sin (a + 1)))"
    by (simp_all add: embed_exact_def a_def x_def algebra_simps)
  have c1: "\<bar>x (sin (a - 1)) - x (sin a)\<bar> < 1" and c2: "\<bar>x (sin (a + 1)) - x (sin a)\<bar> < 1"
    using eq unfolding e0 e2 e4 by (auto intro: math_round_close)
  have "\<bar>sin (a - 1) - sin a\<bar> < 1 / 50"
    using c1 unfolding x_def by linarith
  moreover have "\<bar>sin (a + 1) - sin a\<bar> < 1 / 50"
    using c2 unfolding x_def by linarith
  ultimately show False
    by (rule sine_samples_spread)
qed

lemma embedToken_loop_map:
  "embedToken_loop fl ident ndim d vec = vec @ map (embed_hundredth fl ident) [d..<ndim]"
proof (induction fl ident ndim d vec rule: embedToken_loop.induct)
  case (1 fl ident ndim d vec)
  show ?case
  proof (cases "d < ndim")
    case True
    then have "[d..<ndim] = d # [Suc d..<ndim]"
      by (simp add: upt_conv_Cons)
    with 1 True show ?thesis
      by (subst embedToken_loop.simps) simp
  next
    case False
    then show ?thesis
      by (subst embedToken_loop.simps) simp
  qed
qed

lemma embedToken_map: "embedToken fl ident ndim = map (embed_hundredth fl ident) [0..<ndim]"
  by (simp add: embedToken_def embedToken_loop_map)

lemma length_embedToken: "length (embedToken fl ident ndim) = ndim"
  by (simp add: embedToken_map)

lemma embedToken_first: "embedToken fl 0 1 = [Hundredth 50]"
  by (simp add: embedToken_map embed_hundredth_def embed_exact_def math_round_def)


section \<open>Properties of the matrix renderer\<close>

declare show_nat.simps [simp del]

lemma render_values_ok:
  "\<forall>c\<in>set cs. c < length row \<Longrightarrow>
   render_values shade lo rng row cs = (map (\<lambda>c. value_cell shade lo rng (row ! c)) cs, None)"
  by (induction cs) simp_all

lemma render_values_None:
  "render_values shade lo rng row cs = (cells, None) \<Longrightarrow>
   (\<forall>c\<in>set cs. c < length row) \<and> cells = map (\<lambda>c. value_cell shade lo rng (row ! c)) cs"
  by (induction cs arbitrary: cells) (auto split: prod.splits if_splits)

lemma render_rows_ok:
  "\<forall>r\<in>set rs. r < length tokens \<and> cols \<le> length (matrix ! r) \<Longrightarrow>
   render_rows shade lo rng tokens matrix cols rs =
     (concat (map (row_cells shade lo rng tokens matrix cols) rs), None)"
  by (induction rs) (simp_all add: render_values_ok row_cells_def)

lemma render_rows_None:
  "render_rows shade lo rng tokens matrix cols rs = (cells, None) \<Longrightarrow>
   (\<forall>r\<in>set rs. r < length tokens \<and> cols \<le> length (matrix ! r))
   \<and> cells = concat (map (row_cells shade lo rng tokens matrix cols) rs)"
proof (induction rs arbitrary: cells)
  case Nil
  then show ?case by simp
next
  case (Cons r rs)
  from Cons.prems obtain vs rest where
    r: "r < length tokens"
    and vs: "render_values shade lo rng (matrix ! r) [0..<cols] = (vs, None)"
    and rest: "render_rows shade lo rng tokens matrix cols rs = (rest, None)"
    and cells: "cells = createCell (Str (token_label (tokens ! r))) (lit ''token-label'') # vs @ rest"
    by (auto split: prod.splits option.splits if_splits)
  from render_values_None [OF vs] have "cols \<le> length (matrix ! r)"
    and "vs = map (\<lambda>c. value_cell shade lo rng (matrix ! r ! c)) [0..<cols]"
    by (auto simp: not_less [symmetric] dest: bspec)
  with Cons.IH [OF rest] r cells show ?case
    by (simp add: row_cells_def)
qed

lemma nth_concat_uniform:
  assumes "\<forall>xs\<in>set xss. length xs = n" and "r < length xss" and "j < n"
  shows "concat xss ! (r * n + j) = xss ! r ! j"
  using assms
proof (induction xss arbitrary: r)
  case Nil
  then show ?case by simp
next
  case (Cons xs xss)
  show ?case
  proof (cases r)
    case 0
    with Cons.prems show ?thesis by (simp add: nth_append)
  next
    case (Suc k)
    with Cons.prems have "concat xss ! (k * n + j) = xss ! k ! j"
      using Cons.IH [of k] by simp
    with Suc Cons.prems show ?thesis by (simp add: nth_append)
  qed
qed

lemma length_row_cells: "length (row_cells shade lo rng tokens matrix cols r) = cols + 1"
  by (simp add: row_cells_def)

lemma length_dim_headers: "length (dim_headers cols) = cols"
  by (simp add: dim_headers_def)

lemma least_Min: "xs \<noteq> [] \<Longrightarrow> least xs = Min (set xs)"
proof (cases xs)
  case (Cons x ys)
  then show ?thesis
    using Min.set_eq_fold [of x ys] by (simp add: least_def)
qed simp

lemma greatest_Max: "xs \<noteq> [] \<Longrightarrow> greatest xs = Max (set xs)"
proof (cases xs)
  case (Cons x ys)
  then show ?thesis
    using Max.set_eq_fold [of x ys] by (simp add: greatest_def)
qed simp

lemma renderMatrix_ok:
  assumes "matrix \<noteq> []"
    and "length matrix \<le> length tokens"
    and "\<forall>r<length matrix. length (matrix ! 0) \<le> length (matrix ! r)"
    and "length (concat matrix) \<le> limit"
  shows "renderMatrix limit shade tokens matrix d =
     Returns (d\<lparr>gridTemplateColumns := lit ''auto repeat('' @ show_nat (length (matrix ! 0)) @ lit '', 22px)'',
            gridTemplateRows := lit ''auto repeat('' @ show_nat (length matrix) @ lit '', 22px)'',
            matrixGrid := grid_cells shade tokens matrix\<rparr>)"
proof -
  obtain row0 rest where m: "matrix = row0 # rest"
    using assms(1) by (cases matrix) auto
  have "\<forall>r\<in>set [0..<length matrix]. r < length tokens \<and> length (matrix ! 0) \<le> length (matrix ! r)"
    using assms(2,3) by auto
  then have "render_rows shade lo rng tokens matrix (length (matrix ! 0)) [0..<length matrix] =
      (concat (map (row_cells shade lo rng tokens matrix (length (matrix ! 0))) [0..<length matrix]), None)"
    for lo rng
    by (rule render_rows_ok)
  moreover have "\<not> limit < length (concat matrix)"
    using assms(4) by simp
  ultimately show ?thesis
    unfolding renderMatrix_def grid_cells_def Let_def all_hundredths_def math_min_def math_max_def
    by (simp add: m)
qed

lemma renderMatrix_RangeError:
  assumes "matrix \<noteq> []" and "limit < length (concat matrix)"
  shows "renderMatrix limit shade tokens matrix d = Throws RangeError d"
proof -
  obtain row0 rest where m: "matrix = row0 # rest"
    using assms(1) by (cases matrix) auto
  show ?thesis
    using assms(2) unfolding renderMatrix_def Let_def math_min_def m by simp
qed

lemma renderMatrix_Returns:
  assumes "renderMatrix limit shade tokens matrix d = Returns d'"
  shows "matrix \<noteq> []"
    and "length matrix \<le> length tokens"
    and "\<forall>r<length matrix. length (matrix ! 0) \<le> length (matrix ! r)"
    and "length (concat matrix) \<le> limit"
    and "matrixGrid d' = grid_cells shade tokens matrix"
proof -
  show ne: "matrix \<noteq> []"
    using assms by (auto simp: renderMatrix_def)
  then obtain row0 rest where m: "matrix = row0 # rest"
    by (cases matrix) auto
  show lim: "length (concat matrix) \<le> limit"
  proof (rule ccontr)
    assume "\<not> length (concat matrix) \<le> limit"
    then have "renderMatrix limit shade tokens matrix d = Throws RangeError d"
      using ne by (intro renderMatrix_RangeError) simp_all
    with assms show False by simp
  qed
  define lo where "lo = least (all_hundredths matrix)"
  define rng where "rng = heat_range lo (greatest (all_hundredths matrix))"
  from assms lim obtain cells where
    cells: "render_rows shade lo rng tokens matrix (length (matrix ! 0)) [0..<length matrix] = (cells, None)"
    unfolding renderMatrix_def Let_def lo_def rng_def m all_hundredths_def math_min_def math_max_def
    by (auto split: prod.splits option.splits)
  from render_rows_None [OF cells]
  have wf: "\<forall>r\<in>set [0..<length matrix]. r < length tokens \<and> length (matrix ! 0) \<le> length (matrix ! r)"
    by simp
  then show rows: "\<forall>r<length matrix. length (matrix ! 0) \<le> length (matrix ! r)"
    by simp
  show len: "length matrix \<le> length tokens"
  proof (rule ccontr)
    assume "\<not> length matrix \<le> length tokens"
    then have "length tokens \<in> set [0..<length matrix]" by simp
    with wf show False by blast
  qed
  from renderMatrix_ok [OF ne len rows lim, of shade d] assms
  show "matrixGrid d' = grid_cells shade tokens matrix"
    by auto
qed

lemma grid_cells_at:
  assumes "r < length matrix" and "c \<le> length (matrix ! 0)"
  shows "grid_at (grid_cells shade tokens matrix) (length (matrix ! 0)) (Suc r) c =
         row_cells shade (least (all_hundredths matrix))
           (heat_range (least (all_hundredths matrix)) (greatest (all_hundredths matrix)))
           tokens matrix (length (matrix ! 0)) r ! c"
proof -
  define cols where "cols = length (matrix ! 0)"
  define lo where "lo = least (all_hundredths matrix)"
  define rng where "rng = heat_range lo (greatest (all_hundredths matrix))"
  define hdr where "hdr = createCell (Str []) (lit ''corner dim-label token-label'') # dim_headers cols"
  define xss where "xss = map (row_cells shade lo rng tokens matrix cols) [0..<length matrix]"
  have g: "grid_cells shade tokens matrix = hdr @ concat xss"
    by (simp add: grid_cells_def Let_def hdr_def xss_def cols_def lo_def rng_def)
  have lh: "length hdr = cols + 1"
    by (simp add: hdr_def length_dim_headers)
  have "Suc r * (cols + 1) + c = length hdr + (r * (cols + 1) + c)"
    by (simp add: lh)
  then have "grid_at (grid_cells shade tokens matrix) cols (Suc r) c = concat xss ! (r * (cols + 1) + c)"
    unfolding grid_at_def g by (simp only: nth_append_length_plus)
  also have "\<dots> = xss ! r ! c"
  proof (rule nth_concat_uniform)
    show "\<forall>xs\<in>set xss. length xs = cols + 1"
      by (auto simp: xss_def length_row_cells)
    show "r < length xss"
      using assms(1) by (simp add: xss_def)
    show "c < cols + 1"
      using assms(2) by (simp add: cols_def)
  qed
  also have "xss ! r = row_cells shade lo rng tokens matrix cols r"
    using assms(1) by (simp add: xss_def)
  finally show ?thesis
    by (simp add: cols_def lo_def rng_def)
qed

lemma heat_range_nonzero: "heat_range lo hi \<noteq> 0"
  by (simp add: heat_range_def)

lemma heat_range_same: "heat_range lo lo = 1"
  by (simp add: heat_range_def)

lemma heat_t_min: "heat_t lo rng lo = 0"
  by (simp add: heat_t_def)

lemma heat_t_max: "lo < hi \<Longrightarrow> heat_t lo (heat_range lo hi) hi = 1"
  by (simp add: heat_t_def heat_range_def)

lemma heatmapColor_min: "heatmapColor shade lo rng lo = anchor_color 0"
  by (simp add: heatmapColor_def heat_t_min anchor_color_def)

lemma heatmapColor_max:
  "lo < hi \<Longrightarrow> heatmapColor shade lo (heat_range lo hi) hi = anchor_color 1"
  by (simp add: heatmapColor_def heat_t_max anchor_color_def)

lemma show_nat_digit: "n < 10 \<Longrightarrow> show_nat n = [48 + of_nat n]"
  by (subst show_nat.simps) simp

lemma show_nat_more: "10 \<le> n \<Longrightarrow> show_nat n = show_nat (n div 10) @ [48 + of_nat (n mod 10)]"
  by (subst show_nat.simps) simp

lemma anchor_colors:
  "anchor_color 0 = lit ''rgb(255,255,252)''" "anchor_color 1 = lit ''rgb(125,211,252)''"
  by (simp_all add: anchor_color_def math_round_def rgb_def show_int_def show_nat_more
      show_nat_digit lit_def)

lemma row_cells_value:
  "c < cols \<Longrightarrow>
   row_cells shade lo rng tokens matrix cols r ! Suc c = value_cell shade lo rng (matrix ! r ! c)"
  by (simp add: row_cells_def)

lemma row_cells_label:
  "row_cells shade lo rng tokens matrix cols r ! 0 =
     createCell (Str (token_label (tokens ! r))) (lit ''token-label'')"
  by (simp add: row_cells_def)

lemma rendered_background:
  assumes "renderMatrix limit shade tokens matrix d = Returns d'" and "r < length matrix"
    and "c < length (matrix ! 0)"
  shows "style_background (grid_at (matrixGrid d') (length (matrix ! 0)) (Suc r) (Suc c)) =
     Some (heatmapColor shade (least (all_hundredths matrix))
       (heat_range (least (all_hundredths matrix)) (greatest (all_hundredths matrix)))
       (hundredths (matrix ! r ! c)))"
proof -
  have "matrixGrid d' = grid_cells shade tokens matrix"
    using assms(1) by (rule renderMatrix_Returns(5))
  moreover have "Suc c \<le> length (matrix ! 0)"
    using assms(3) by simp
  ultimately show ?thesis
    using grid_cells_at [OF assms(2), of "Suc c" shade tokens] assms(3)
    by (simp add: row_cells_value value_cell_def)
qed

text \<open>
  Claim C9. In every rendered row the label, the first cell of the row's line, shows the
  token unchanged when the token has at most 10 characters, and its first 8 characters
  followed by an ellipsis when it has more than 10.
\<close>

theorem C9_token_label:
  assumes "renderMatrix limit shade tokens matrix d = Returns d'" and "r < length matrix"
  shows "textContent (grid_at (matrixGrid d') (length (matrix ! 0)) (Suc r) 0) =
           Str (if length (tokens ! r) \<le> 10 then tokens ! r else take 8 (tokens ! r) @ [8230])
         \<and> className (grid_at (matrixGrid d') (length (matrix ! 0)) (Suc r) 0) =
             lit ''matrix-cell token-label''"
proof -
  have "matrixGrid d' = grid_cells shade tokens matrix"
    using assms(1) by (rule renderMatrix_Returns(5))
  then have "grid_at (matrixGrid d') (length (matrix ! 0)) (Suc r) 0 =
      createCell (Str (token_label (tokens ! r))) (lit ''token-label'')"
    using grid_cells_at [OF assms(2), of 0 shade tokens] by (simp add: row_cells_label)
  then show ?thesis
    by (simp add: createCell_def token_label_def ellipsis_def lit_def)
qed

theorem C9_token_label_witness:
  "thrown (renderMatrix 2 (\<lambda>lo rng v. []) [lit ''internationalization'', lit ''tokenizers'']
      [[Hundredth 50], [Hundredth 50]] blank_page) = None
   \<and> textContent (grid_at (grid_of (renderMatrix 2 (\<lambda>lo rng v. [])
        [lit ''internationalization'', lit ''tokenizers'']
        [[Hundredth 50], [Hundredth 50]] blank_page)) 1 1 0) = Str (lit ''internat'' @ [8230])
   \<and> textContent (grid_at (grid_of (renderMatrix 2 (\<lambda>lo rng v. [])
        [lit ''internationalization'', lit ''tokenizers'']
        [[Hundredth 50], [Hundredth 50]] blank_page)) 1 2 0) = Str (lit ''tokenizers'')"
proof -
  define tokens where "tokens = [lit ''internationalization'', lit ''tokenizers'']"
  define matrix where "matrix = [[Hundredth 50], [Hundredth 50]]"
  define shade :: "nat \<Rightarrow> real \<Rightarrow> nat \<Rightarrow> jsstring" where "shade = (\<lambda>lo rng v. [])"
  obtain d' where ok: "renderMatrix 2 shade tokens matrix blank_page = Returns d'"
    using renderMatrix_ok [of matrix tokens 2 shade blank_page]
    by (simp add: tokens_def matrix_def less_Suc_eq)
  have "(0 :: nat) < length matrix" and "(1 :: nat) < length matrix"
    by (simp_all add: matrix_def)
  from C9_token_label [OF ok this(1)] C9_token_label [OF ok this(2)] ok
  show ?thesis
    unfolding tokens_def [symmetric] matrix_def [symmetric] shade_def [symmetric]
    by (simp add: grid_of_def page_of_def thrown_def)
      (simp add: tokens_def matrix_def lit_def numeral_2_eq_2)
qed

section \<open>Properties of the pipeline\<close>

lemma tokenToId_less: "tokenToId token < 1024"
  by (simp add: tokenToId_def)



lemma run_matrix_map:
  "run_matrix fl uni d = map (\<lambda>t. embedToken fl (int (tokenToId t)) 8) (run_tokens uni d)"
  by (rule nth_equalityI) (simp_all add: run_matrix_def run_ids_def Let_def)


lemma length_run_matrix: "length (run_matrix fl uni d) = length (run_tokens uni d)"
  by (simp add: run_matrix_map)

lemma run_matrix_row: "r < length (run_tokens uni d) \<Longrightarrow> length (run_matrix fl uni d ! r) = 8"
  by (simp add: run_matrix_map length_embedToken)

lemma length_concat_run_matrix:
  "length (concat (run_matrix fl uni d)) = 8 * length (run_tokens uni d)"
proof -
  have "map length (run_matrix fl uni d) = replicate (length (run_tokens uni d)) 8"
    by (simp add: run_matrix_map length_embedToken map_replicate_const comp_def)
  then show ?thesis
    by (simp add: length_concat sum_list_replicate)
qed

lemma run_matrix_entry:
  assumes "r < length (run_tokens uni d)" and "c < 8"
  shows "hundredths (run_matrix fl uni d ! r ! c) =
         nat (embed_exact (int (tokenToId (run_tokens uni d ! r))) c)"
  using assms tokenToId_less [of "run_tokens uni d ! r"]
  by (simp add: run_matrix_map embedToken_map hundredths_embed)

text \<open>
  Claim C6. For every input text the matrix of the pipeline has one row per token and
  every row has 8 columns; the matrix is empty exactly when there is no token.
\<close>

theorem C6_matrix_shape:
  "length (run_matrix fl uni d) = length (run_tokens uni d)
   \<and> list_all (\<lambda>row. length row = 8) (run_matrix fl uni d)
   \<and> (run_matrix fl uni d = [] \<longleftrightarrow> run_tokens uni d = [])"
  by (simp add: run_matrix_map list_all_iff length_embedToken)

lemma runPipeline_empty:
  assumes "run_tokens uni d = []"
  shows "runPipeline limit shade fl uni d =
     Returns (d\<lparr>tokensOut := placeholder, idsOut := placeholder, matrixMeta := placeholder,
            has_matrix := False, matrixGrid := []\<rparr>)"
proof -
  have "run_matrix fl uni d = []" and "run_ids uni d = []"
    using assms by (simp_all add: run_matrix_map run_ids_def)
  with assms show ?thesis
    by (simp add: runPipeline_def)
qed

lemma runPipeline_render:
  assumes "run_tokens uni d \<noteq> []"
  shows "runPipeline limit shade fl uni d =
     renderMatrix limit shade (run_tokens uni d) (run_matrix fl uni d)
       (d\<lparr>tokensOut := join (lit '', '') (run_tokens uni d),
          idsOut := join (lit '', '') (map show_nat (run_ids uni d)),
          matrixMeta := matrix_summary (length (run_tokens uni d)) 8,
          has_matrix := True\<rparr>)"
proof -
  have "run_matrix fl uni d \<noteq> []" and "run_ids uni d \<noteq> []"
    using assms by (simp_all add: run_matrix_map run_ids_def)
  with assms show ?thesis
    by (simp add: runPipeline_def Let_def length_run_matrix)
qed

lemma runPipeline_tokens:
  assumes "run_tokens uni d \<noteq> []" and "8 * length (run_tokens uni d) \<le> limit"
  shows "runPipeline limit shade fl uni d =
     Returns (d\<lparr>tokensOut := join (lit '', '') (run_tokens uni d),
            idsOut := join (lit '', '') (map show_nat (run_ids uni d)),
            matrixMeta := matrix_summary (length (run_tokens uni d)) 8,
            has_matrix := True,
            gridTemplateColumns := lit ''auto repeat('' @ show_nat 8 @ lit '', 22px)'',
            gridTemplateRows :=
              lit ''auto repeat('' @ show_nat (length (run_tokens uni d)) @ lit '', 22px)'',
            matrixGrid := grid_cells shade (run_tokens uni d) (run_matrix fl uni d)\<rparr>)"
proof -
  define tokens where "tokens = run_tokens uni d"
  define matrix where "matrix = run_matrix fl uni d"
  have len: "length matrix = length tokens"
    by (simp add: matrix_def tokens_def length_run_matrix)
  have ne: "matrix \<noteq> []"
    using assms(1) len by (auto simp: tokens_def)
  have rows: "length (matrix ! r) = 8" if "r < length matrix" for r
    using that len by (simp add: matrix_def tokens_def run_matrix_row)
  have zero: "length (matrix ! 0) = 8"
    using ne by (intro rows) simp
  have lim: "length (concat matrix) \<le> limit"
    using assms(2) by (simp add: matrix_def length_concat_run_matrix)
  have "renderMatrix limit shade tokens matrix d0 =
     Returns (d0\<lparr>gridTemplateColumns := lit ''auto repeat('' @ show_nat (length (matrix ! 0)) @ lit '', 22px)'',
            gridTemplateRows := lit ''auto repeat('' @ show_nat (length matrix) @ lit '', 22px)'',
            matrixGrid := grid_cells shade tokens matrix\<rparr>)" for d0
    using ne len rows zero lim by (intro renderMatrix_ok) simp_all
  then show ?thesis
    unfolding runPipeline_render [OF assms(1)] tokens_def [symmetric] matrix_def [symmetric]
    by (simp add: zero len)
qed

lemma runPipeline_RangeError:
  assumes "limit < 8 * length (run_tokens uni d)"
  shows "runPipeline limit shade fl uni d =
     Throws RangeError
       (d\<lparr>tokensOut := join (lit '', '') (run_tokens uni d),
          idsOut := join (lit '', '') (map show_nat (run_ids uni d)),
          matrixMeta := matrix_summary (length (run_tokens uni d)) 8,
          has_matrix := True\<rparr>)"
proof -
  have ne: "run_tokens uni d \<noteq> []"
    using assms by auto
  then have "run_matrix fl uni d \<noteq> []"
    by (simp add: run_matrix_map)
  moreover have "limit < length (concat (run_matrix fl uni d))"
    using assms by (simp add: length_concat_run_matrix)
  ultimately show ?thesis
    unfolding runPipeline_render [OF ne] by (rule renderMatrix_RangeError)
qed

lemma runPipeline_cases:
  obtains (empty) "run_tokens uni d = []"
  | (rendered) "run_tokens uni d \<noteq> []" "8 * length (run_tokens uni d) \<le> limit"
  | (too_long) "limit < 8 * length (run_tokens uni d)"
  by fastforce


lemma runPipeline_summaries:
  "tokensOut (page_of (runPipeline limit shade fl uni d)) =
     (if run_tokens uni d \<noteq> [] then join (lit '', '') (run_tokens uni d) else placeholder)
   \<and> idsOut (page_of (runPipeline limit shade fl uni d)) =
     (if run_tokens uni d \<noteq> [] then join (lit '', '') (map show_nat (run_ids uni d))
      else placeholder)
   \<and> matrixMeta (page_of (runPipeline limit shade fl uni d)) =
     (if run_tokens uni d \<noteq> [] then matrix_summary (length (run_tokens uni d)) 8
      else placeholder)
   \<and> has_matrix (page_of (runPipeline limit shade fl uni d)) = (run_tokens uni d \<noteq> [])
   \<and> textInput_value (page_of (runPipeline limit shade fl uni d)) = textInput_value d"
proof (cases rule: runPipeline_cases [where uni = uni and d = d and limit = limit])
  case empty
  then show ?thesis by (simp add: runPipeline_empty page_of_def)
next
  case rendered
  then show ?thesis by (simp add: runPipeline_tokens page_of_def)
next
  case too_long
  then have "run_tokens uni d \<noteq> []" by auto
  with too_long show ?thesis by (simp add: runPipeline_RangeError page_of_def)
qed











text \<open>
  Claim C2. On the input \<open>"Hi there!"\<close> the run has the tokens \<open>hi\<close>, \<open>there\<close> and
  \<open>!\<close>, the three ids 257, 612 and 33 of the hash rule, a matrix of 3 rows of 8 columns,
  and leaves the summary \<open>3 x 8 (tokens x dimensions)\<close>, written with the multiplication
  sign U+00D7; it returns on every engine that takes 24 arguments in one call.
\<close>

theorem C2_hi_there:
  "run_tokens uni (d\<lparr>textInput_value := lit ''Hi there!''\<rparr>) = [lit ''hi'', lit ''there'', lit ''!'']
   \<and> run_ids uni (d\<lparr>textInput_value := lit ''Hi there!''\<rparr>) = [257, 612, 33]
   \<and> run_ids uni (d\<lparr>textInput_value := lit ''Hi there!''\<rparr>) =
       map hash_spec (run_tokens uni (d\<lparr>textInput_value := lit ''Hi there!''\<rparr>))
   \<and> length (run_matrix fl uni (d\<lparr>textInput_value := lit ''Hi there!''\<rparr>)) = 3
   \<and> map length (run_matrix fl uni (d\<lparr>textInput_value := lit ''Hi there!''\<rparr>)) = [8, 8, 8]
   \<and> matrixMeta (page_of (runPipeline limit shade fl uni (d\<lparr>textInput_value := lit ''Hi there!''\<rparr>))) =
       lit ''3 '' @ [215] @ lit '' 8 (tokens '' @ [215] @ lit '' dimensions)''
   \<and> tokensOut (page_of (runPipeline limit shade fl uni (d\<lparr>textInput_value := lit ''Hi there!''\<rparr>))) =
       lit ''hi, there, !''
   \<and> idsOut (page_of (runPipeline limit shade fl uni (d\<lparr>textInput_value := lit ''Hi there!''\<rparr>))) =
       lit ''257, 612, 33''
   \<and> has_matrix (page_of (runPipeline limit shade fl uni (d\<lparr>textInput_value := lit ''Hi there!''\<rparr>)))
   \<and> (24 \<le> limit \<longrightarrow>
        (\<exists>d'. runPipeline limit shade fl uni (d\<lparr>textInput_value := lit ''Hi there!''\<rparr>) = Returns d'))"
proof -
  define d0 where "d0 = d\<lparr>textInput_value := lit ''Hi there!''\<rparr>"
  have toks: "run_tokens uni d0 = [lit ''hi'', lit ''there'', lit ''!'']"
    by (simp add: d0_def run_tokens_def tokenize_def lit_def trim_def is_space_def
        toLowerCase_def ascii_lower_def replace_punct_def is_punct_def is_word_def split_space_def)
  have ids: "run_ids uni d0 = map hash_spec (run_tokens uni d0)"
    by (simp add: run_ids_def tokenToId_hash_spec)
  then have ids': "run_ids uni d0 = [257, 612, 33]"
    using hash_spec_examples by (simp add: toks)
  have len: "length (run_matrix fl uni d0) = 3"
    by (simp add: length_run_matrix toks)
  have rows: "map length (run_matrix fl uni d0) = [8, 8, 8]"
    by (simp add: run_matrix_map toks length_embedToken)
  have meta: "matrix_summary (length (run_tokens uni d0)) 8 =
      lit ''3 '' @ [215] @ lit '' 8 (tokens '' @ [215] @ lit '' dimensions)''"
    by (simp add: toks matrix_summary_def show_nat_digit times_sign_def lit_def)
  have idtext: "join (lit '', '') (map show_nat (run_ids uni d0)) = lit ''257, 612, 33''"
    by (simp add: ids' show_nat_more show_nat_digit lit_def)
  have toktext: "join (lit '', '') (run_tokens uni d0) = lit ''hi, there, !''"
    by (simp add: toks lit_def)
  have ne: "run_tokens uni d0 \<noteq> []"
    by (simp add: toks)
  have page: "matrixMeta (page_of (runPipeline limit shade fl uni d0)) =
        lit ''3 '' @ [215] @ lit '' 8 (tokens '' @ [215] @ lit '' dimensions)''
      \<and> tokensOut (page_of (runPipeline limit shade fl uni d0)) = lit ''hi, there, !''
      \<and> idsOut (page_of (runPipeline limit shade fl uni d0)) = lit ''257, 612, 33''
      \<and> has_matrix (page_of (runPipeline limit shade fl uni d0))"
    using runPipeline_summaries [of limit shade fl uni d0] ne
    unfolding meta [symmetric] idtext [symmetric] toktext [symmetric] by simp
  have "\<exists>d'. runPipeline limit shade fl uni d0 = Returns d'" if "24 \<le> limit"
  proof -
    have "8 * length (run_tokens uni d0) \<le> limit"
      using that by (simp add: toks)
    from runPipeline_tokens [OF ne this] show ?thesis
      by blast
  qed
  then show ?thesis
    using toks ids ids' len rows page unfolding d0_def by blast
qed

theorem C2_hi_there_witness:
  "(24 :: nat) \<le> 24
   \<and> thrown (runPipeline 24 (\<lambda>lo rng v. []) (\<lambda>i d. Hundredth 0) (\<lambda>s. s)
        (blank_page\<lparr>textInput_value := lit ''Hi there!''\<rparr>)) = None
   \<and> matrixMeta (page_of (runPipeline 24 (\<lambda>lo rng v. []) (\<lambda>i d. Hundredth 0) (\<lambda>s. s)
        (blank_page\<lparr>textInput_value := lit ''Hi there!''\<rparr>))) =
       lit ''3 '' @ [215] @ lit '' 8 (tokens '' @ [215] @ lit '' dimensions)''"
proof -
  from C2_hi_there [of "\<lambda>s. s" blank_page "\<lambda>i d. Hundredth 0" 24 "\<lambda>lo rng v. []"]
  show ?thesis
    by (auto simp: thrown_def)
qed

lemma cell_in_all:
  assumes "r < length matrix" and "c < length (matrix ! r)"
  shows "hundredths (matrix ! r ! c) \<in> set (all_hundredths matrix)"
  using assms unfolding all_hundredths_def by (auto intro!: imageI bexI [of _ "matrix ! r"])

lemma all_cell:
  assumes "x \<in> set (all_hundredths matrix)"
  shows "\<exists>r c. r < length matrix \<and> c < length (matrix ! r) \<and> hundredths (matrix ! r ! c) = x"
proof -
  from assms obtain row h where "row \<in> set matrix" and "h \<in> set row" and "hundredths h = x"
    unfolding all_hundredths_def by auto
  then obtain r c where "r < length matrix" "matrix ! r = row" "c < length row" "row ! c = h"
    by (metis in_set_conv_nth)
  then show ?thesis
    using \<open>hundredths h = x\<close> by auto
qed

lemma run_spread:
  assumes "run_tokens uni d \<noteq> []"
  shows "Min (set (all_hundredths (run_matrix fl uni d))) <
         Max (set (all_hundredths (run_matrix fl uni d)))"
proof -
  define M where "M = run_matrix fl uni d"
  define i where "i = int (tokenToId (run_tokens uni d ! 0))"
  define S where "S = set (all_hundredths M)"
  have r: "0 < length (run_tokens uni d)"
    using assms by simp
  then have rM: "0 < length M" and row: "length (M ! 0) = 8"
    by (simp_all add: M_def length_run_matrix run_matrix_row)
  have val: "hundredths (M ! 0 ! c) = nat (embed_exact i c)" if "c < 8" for c
    unfolding M_def i_def using r that by (rule run_matrix_entry)
  have mem: "nat (embed_exact i c) \<in> S" if "c < 8" for c
    using cell_in_all [OF rM, of c] that by (simp add: S_def row val)
  have fin: "finite S" and ne: "S \<noteq> {}"
    using mem [of 0] by (auto simp: S_def)
  have "\<not> (nat (embed_exact i 0) = nat (embed_exact i 2)
      \<and> nat (embed_exact i 4) = nat (embed_exact i 2))"
    using embed_exact_spread [of i] embed_exact_bounds [of i 0] embed_exact_bounds [of i 2]
      embed_exact_bounds [of i 4]
    by auto
  then consider "nat (embed_exact i 0) \<noteq> nat (embed_exact i 2)"
    | "nat (embed_exact i 4) \<noteq> nat (embed_exact i 2)"
    by blast
  then obtain x y where "x \<in> S" "y \<in> S" "x \<noteq> y"
  proof cases
    case 1
    with mem [of 0] mem [of 2] that show ?thesis by simp
  next
    case 2
    with mem [of 4] mem [of 2] that show ?thesis by simp
  qed
  then obtain a b where "a \<in> S" "b \<in> S" "a < b"
    by (metis linorder_neqE_nat)
  then have "Min S \<le> a" and "b \<le> Max S"
    using fin by simp_all
  with \<open>a < b\<close> show ?thesis
    unfolding S_def M_def by simp
qed

text \<open>
  Claim C3. In every run that renders a matrix, a cell holding the minimum of all values
  is painted the anchor colour of \<open>t = 0\<close>, \<open>rgb(255,255,252)\<close>, and a cell holding the
  maximum is painted the anchor colour of \<open>t = 1\<close>, \<open>rgb(125,211,252)\<close>. The divisor
  \<open>range\<close> is never 0: it is 1 when the maximum equals the minimum.
\<close>

theorem C3_heatmap_anchors:
  assumes "runPipeline limit shade fl uni d = Returns d'"
    and "r < length (run_tokens uni d)" and "c < 8"
  shows "(hundredths (run_matrix fl uni d ! r ! c) = Min (set (all_hundredths (run_matrix fl uni d))) \<longrightarrow>
            style_background (grid_at (matrixGrid d') 8 (Suc r) (Suc c)) = Some (anchor_color 0))
       \<and> (hundredths (run_matrix fl uni d ! r ! c) = Max (set (all_hundredths (run_matrix fl uni d))) \<longrightarrow>
            style_background (grid_at (matrixGrid d') 8 (Suc r) (Suc c)) = Some (anchor_color 1))
       \<and> heat_range lo hi \<noteq> 0
       \<and> heat_range lo lo = 1
       \<and> anchor_color 0 = lit ''rgb(255,255,252)''
       \<and> anchor_color 1 = lit ''rgb(125,211,252)''"
proof -
  define M where "M = run_matrix fl uni d"
  define v where "v = hundredths (M ! r ! c)"
  have ne: "run_tokens uni d \<noteq> []"
    using assms(2) by (cases "run_tokens uni d") simp_all
  have rM: "r < length M" and zM: "0 < length M"
    using assms(2) ne by (simp_all add: M_def length_run_matrix)
  have row: "length (M ! r) = 8" and row0: "length (M ! 0) = 8"
    using assms(2) ne by (simp_all add: M_def run_matrix_row)
  have "hundredths (M ! 0 ! 0) \<in> set (all_hundredths M)"
    using zM row0 by (intro cell_in_all) simp_all
  then have nonempty: "all_hundredths M \<noteq> []"
    by (cases "all_hundredths M") simp_all
  have lt: "Min (set (all_hundredths M)) < Max (set (all_hundredths M))"
    unfolding M_def using ne by (rule run_spread)
  have render: "renderMatrix limit shade (run_tokens uni d) M
      (d\<lparr>tokensOut := join (lit '', '') (run_tokens uni d),
         idsOut := join (lit '', '') (map show_nat (run_ids uni d)),
         matrixMeta := matrix_summary (length (run_tokens uni d)) 8,
         has_matrix := True\<rparr>) = Returns d'"
    using assms(1) unfolding runPipeline_render [OF ne] M_def .
  have "c < length (M ! 0)"
    using assms(3) row0 by simp
  from rendered_background [OF render rM this]
  have bg: "style_background (grid_at (matrixGrid d') 8 (Suc r) (Suc c)) =
      Some (heatmapColor shade (Min (set (all_hundredths M)))
        (heat_range (Min (set (all_hundredths M))) (Max (set (all_hundredths M)))) v)"
    unfolding v_def by (simp add: row0 least_Min [OF nonempty] greatest_Max [OF nonempty])
  show ?thesis
    unfolding M_def [symmetric] v_def [symmetric]
    using bg lt
    by (auto simp: heatmapColor_min heatmapColor_max heat_range_nonzero heat_range_same
        anchor_colors)
qed

theorem C3_heatmap_anchors_witness:
  "(\<exists>r c. r < 3 \<and> c < 8
      \<and> hundredths (run_matrix (\<lambda>i d. Hundredth 0) (\<lambda>s. s)
            (blank_page\<lparr>textInput_value := lit ''Hi there!''\<rparr>) ! r ! c) =
          Min (set (all_hundredths (run_matrix (\<lambda>i d. Hundredth 0) (\<lambda>s. s)
            (blank_page\<lparr>textInput_value := lit ''Hi there!''\<rparr>))))
      \<and> style_background (grid_at (grid_of (runPipeline 24 (\<lambda>lo rng v. []) (\<lambda>i d. Hundredth 0)
            (\<lambda>s. s) (blank_page\<lparr>textInput_value := lit ''Hi there!''\<rparr>))) 8 (Suc r) (Suc c)) =
          Some (lit ''rgb(255,255,252)''))
   \<and> (\<exists>r c. r < 3 \<and> c < 8
      \<and> hundredths (run_matrix (\<lambda>i d. Hundredth 0) (\<lambda>s. s)
            (blank_page\<lparr>textInput_value := lit ''Hi there!''\<rparr>) ! r ! c) =
          Max (set (all_hundredths (run_matrix (\<lambda>i d. Hundredth 0) (\<lambda>s. s)
            (blank_page\<lparr>textInput_value := lit ''Hi there!''\<rparr>))))
      \<and> style_background (grid_at (grid_of (runPipeline 24 (\<lambda>lo rng v. []) (\<lambda>i d. Hundredth 0)
            (\<lambda>s. s) (blank_page\<lparr>textInput_value := lit ''Hi there!''\<rparr>))) 8 (Suc r) (Suc c)) =
          Some (lit ''rgb(125,211,252)''))"
proof -
  define d where "d = blank_page\<lparr>textInput_value := lit ''Hi there!''\<rparr>"
  define fl :: "int \<Rightarrow> nat \<Rightarrow> hundredth" where "fl = (\<lambda>i d. Hundredth 0)"
  define shade :: "nat \<Rightarrow> real \<Rightarrow> nat \<Rightarrow> jsstring" where "shade = (\<lambda>lo rng v. [])"
  define M where "M = run_matrix fl (\<lambda>s. s) d"
  have toks: "run_tokens (\<lambda>s. s) d = [lit ''hi'', lit ''there'', lit ''!'']"
    by (simp add: d_def run_tokens_def tokenize_def lit_def trim_def is_space_def
        toLowerCase_def ascii_lower_def replace_punct_def is_punct_def is_word_def split_space_def)
  then have ne: "run_tokens (\<lambda>s. s) d \<noteq> []" and lim: "8 * length (run_tokens (\<lambda>s. s) d) \<le> 24"
    by simp_all
  obtain d' where run: "runPipeline 24 shade fl (\<lambda>s. s) d = Returns d'"
    using runPipeline_tokens [OF ne lim] by blast
  have len: "length M = 3"
    by (simp add: M_def length_run_matrix toks)
  have rows: "length (M ! r) = 8" if "r < 3" for r
    using that by (simp add: M_def run_matrix_row toks)
  have "hundredths (M ! 0 ! 0) \<in> set (all_hundredths M)"
    using len rows [of 0] by (intro cell_in_all) simp_all
  then have fin: "finite (set (all_hundredths M))" and ne': "set (all_hundredths M) \<noteq> {}"
    by auto
  have cell: "\<exists>r c. r < 3 \<and> c < 8 \<and> hundredths (M ! r ! c) = x" if "x \<in> set (all_hundredths M)" for x
    using all_cell [OF that] len rows by (metis)
  have grid: "grid_of (runPipeline 24 shade fl (\<lambda>s. s) d) = matrixGrid d'"
    by (simp add: run grid_of_def page_of_def)
  from cell [OF Min_in [OF fin ne']] obtain r c where
    rc: "r < 3" "c < 8" "hundredths (M ! r ! c) = Min (set (all_hundredths M))"
    by blast
  then have r: "r < length (run_tokens (\<lambda>s. s) d)"
    by (simp add: toks)
  have "style_background (grid_at (matrixGrid d') 8 (Suc r) (Suc c)) =
      Some (lit ''rgb(255,255,252)'')"
    using C3_heatmap_anchors [OF run r rc(2), of 0 0] rc(3) unfolding M_def by simp
  then have lo: "\<exists>r c. r < 3 \<and> c < 8 \<and> hundredths (M ! r ! c) = Min (set (all_hundredths M))
      \<and> style_background (grid_at (grid_of (runPipeline 24 shade fl (\<lambda>s. s) d)) 8 (Suc r) (Suc c)) =
          Some (lit ''rgb(255,255,252)'')"
    using rc unfolding grid by blast
  from cell [OF Max_in [OF fin ne']] obtain r' c' where
    rc': "r' < 3" "c' < 8" "hundredths (M ! r' ! c') = Max (set (all_hundredths M))"
    by blast
  then have r': "r' < length (run_tokens (\<lambda>s. s) d)"
    by (simp add: toks)
  have "style_background (grid_at (matrixGrid d') 8 (Suc r') (Suc c')) =
      Some (lit ''rgb(125,211,252)'')"
    using C3_heatmap_anchors [OF run r' rc'(2), of 0 0] rc'(3) unfolding M_def by simp
  then have hi: "\<exists>r c. r < 3 \<and> c < 8 \<and> hundredths (M ! r ! c) = Max (set (all_hundredths M))
      \<and> style_background (grid_at (grid_of (runPipeline 24 shade fl (\<lambda>s. s) d)) 8 (Suc r) (Suc c)) =
          Some (lit ''rgb(125,211,252)'')"
    using rc' unfolding grid by blast
  from lo hi show ?thesis
    unfolding M_def d_def fl_def shade_def by (rule conjI)
qed

end
